theory Spec2Isabelle
  imports Main "HOL-Library.Word" "HOL-Library.Signed_Division"
begin

section \<open>Raw ADC sample to millivolt conversion (hal_adc.c)\<close>

text \<open>
  The one computation of the application is \<^verbatim>\<open>convert_adc_raw_to_mvolt\<close>:
  \<^verbatim>\<open>
  static UINT32 convert_adc_raw_to_mvolt(INT16 raw_val)
  {
      INT32 mvolt = raw_val;
      INT32 gnd_reading = wiced_hal_adc_get_ground_offset();
      INT32 ref_reading = wiced_hal_adc_get_reference_reading();
      UINT32 ref_mvolts = wiced_hal_adc_get_reference_micro_volts();
      if (mvolt == 0) { return 0; }
      if (mvolt < gnd_reading) { mvolt = gnd_reading; }
      mvolt -= gnd_reading;
      mvolt *= ref_mvolts;
      mvolt += ((ref_reading - gnd_reading) >> 1);
      mvolt /= (ref_reading - gnd_reading);
      return (uint32_t)mvolt;
  }
  \<close>
  The locals are 32-bit machine integers, modelled as \<open>32 word\<close>: addition,
  subtraction and multiplication wrap modulo \<open>2 ^ 32\<close>, as they do on the target
  (the multiplication by the unsigned \<open>ref_mvolts\<close> is an unsigned one in C, stored
  back into the signed \<open>mvolt\<close>; C itself leaves an overflowing signed addition
  or subtraction undefined). \<open>sint\<close> reads a word as two's complement, and the
  comparison \<open>mvolt < gnd_reading\<close> is the signed one. The shift \<open>>> 1\<close> of a
  signed value is the arithmetic shift of the target's compilers
  (\<open>signed_drop_bit\<close>). The division is C's, truncating towards zero (\<open>sdiv\<close> on
  \<open>int\<close>). C leaves two divisions undefined, and the model makes each an explicit
  fault: the division by zero (\<open>DivideByZero\<close>), and the division of the most
  negative value \<open>- 2 ^ 31\<close> by \<open>- 1\<close>, whose quotient \<open>2 ^ 31\<close> is no \<^verbatim>\<open>INT32\<close>
  (\<open>DivideOverflow\<close>).
\<close>

type_synonym int16 = "16 word"
type_synonym int32 = "32 word"
type_synonym uint32 = "32 word"

datatype fault = DivideByZero | DivideOverflow

text \<open>The statement \<^verbatim>\<open>a /= b\<close> on \<^verbatim>\<open>INT32\<close>.\<close>

definition sdiv32 :: "int32 \<Rightarrow> int32 \<Rightarrow> fault + int32" where
  "sdiv32 a b =
     (if b = 0 then Inl DivideByZero
      else if sint a = - (2 ^ 31) \<and> b = - 1 then Inl DivideOverflow
      else Inr (word_of_int (sint a sdiv sint b)))"

text \<open>The value of \<^verbatim>\<open>ref_reading - gnd_reading\<close>, the divisor.\<close>

definition span :: "int32 \<Rightarrow> int32 \<Rightarrow> int32" where
  "span gnd_reading ref_reading = ref_reading - gnd_reading"

text \<open>The value of \<^verbatim>\<open>(ref_reading - gnd_reading) >> 1\<close>.\<close>

definition rounding_bias :: "int32 \<Rightarrow> int32 \<Rightarrow> int32" where
  "rounding_bias gnd_reading ref_reading = signed_drop_bit 1 (ref_reading - gnd_reading)"

text \<open>\<^verbatim>\<open>mvolt\<close> after \<^verbatim>\<open>if (mvolt < gnd_reading) mvolt = gnd_reading;\<close>\<close>

definition clamped :: "int32 \<Rightarrow> int32 \<Rightarrow> int32" where
  "clamped mvolt gnd_reading = (if mvolt <s gnd_reading then gnd_reading else mvolt)"

text \<open>\<^verbatim>\<open>mvolt\<close> after \<^verbatim>\<open>mvolt -= gnd_reading;\<close>\<close>

definition delta :: "int32 \<Rightarrow> int32 \<Rightarrow> int32" where
  "delta mvolt gnd_reading = clamped mvolt gnd_reading - gnd_reading"

text \<open>\<^verbatim>\<open>mvolt\<close> after \<^verbatim>\<open>mvolt *= ref_mvolts;\<close>\<close>

definition scaled :: "int32 \<Rightarrow> int32 \<Rightarrow> uint32 \<Rightarrow> int32" where
  "scaled mvolt gnd_reading ref_mvolts = delta mvolt gnd_reading * ref_mvolts"

text \<open>\<^verbatim>\<open>mvolt\<close> after \<^verbatim>\<open>mvolt += ((ref_reading - gnd_reading) >> 1);\<close>\<close>

definition biased :: "int32 \<Rightarrow> int32 \<Rightarrow> int32 \<Rightarrow> uint32 \<Rightarrow> int32" where
  "biased mvolt gnd_reading ref_reading ref_mvolts =
     scaled mvolt gnd_reading ref_mvolts + rounding_bias gnd_reading ref_reading"

text \<open>
  The body of the function from \<^verbatim>\<open>if (mvolt == 0)\<close> on, as a function of the four
  locals it has initialised: \<open>mvolt\<close> (the sign-extended sample) and the three
  calibration values the HAL returned. This is the operation the specification
  calls \<open>convert(raw_sample, ground_offset, reference_reading, reference_microvolts)\<close>.
\<close>

definition convert :: "int32 \<Rightarrow> int32 \<Rightarrow> int32 \<Rightarrow> uint32 \<Rightarrow> fault + uint32" where
  "convert mvolt gnd_reading ref_reading ref_mvolts =
     (if mvolt = 0 then Inr 0
      else sdiv32 (biased mvolt gnd_reading ref_reading ref_mvolts)
                  (span gnd_reading ref_reading))"

subsection \<open>The HAL's calibration values and the C function\<close>

text \<open>
  The state of the ADC HAL that the function reads. The record is extensible: its
  \<open>more\<close> part stands for every other piece of program state (the timer object
  \<^verbatim>\<open>seconds_timer\<close>, the trace output).
\<close>

record adc_hal =
  ground_offset :: int32
  reference_reading :: int32
  reference_micro_volts :: uint32

text \<open>
  Modelled from the spec: the three getters \<^verbatim>\<open>wiced_hal_adc_get_ground_offset\<close>,
  \<^verbatim>\<open>wiced_hal_adc_get_reference_reading\<close> and
  \<^verbatim>\<open>wiced_hal_adc_get_reference_micro_volts\<close> belong to the SDK and are not part of
  the source file; the specification treats the calibration as read-only inputs,
  so each getter returns its value and leaves the state as it is.
\<close>

definition wiced_hal_adc_get_ground_offset :: "'a adc_hal_scheme \<Rightarrow> int32 \<times> 'a adc_hal_scheme" where
  "wiced_hal_adc_get_ground_offset s = (ground_offset s, s)"

definition wiced_hal_adc_get_reference_reading :: "'a adc_hal_scheme \<Rightarrow> int32 \<times> 'a adc_hal_scheme" where
  "wiced_hal_adc_get_reference_reading s = (reference_reading s, s)"

definition wiced_hal_adc_get_reference_micro_volts :: "'a adc_hal_scheme \<Rightarrow> uint32 \<times> 'a adc_hal_scheme" where
  "wiced_hal_adc_get_reference_micro_volts s = (reference_micro_volts s, s)"

text \<open>The C function: the sample is an \<^verbatim>\<open>INT16\<close>, sign-extended into \<^verbatim>\<open>mvolt\<close>.\<close>

definition convert_adc_raw_to_mvolt ::
  "int16 \<Rightarrow> 'a adc_hal_scheme \<Rightarrow> (fault + uint32) \<times> 'a adc_hal_scheme" where
  "convert_adc_raw_to_mvolt raw_val s =
     (let mvolt = scast raw_val;
          (gnd_reading, s1) = wiced_hal_adc_get_ground_offset s;
          (ref_reading, s2) = wiced_hal_adc_get_reference_reading s1;
          (ref_mvolts, s3) = wiced_hal_adc_get_reference_micro_volts s2
      in (convert mvolt gnd_reading ref_reading ref_mvolts, s3))"

subsection \<open>The body statement by statement\<close>

text \<open>
  The same body once more, as the C statements are written: each statement is a
  function on the state it can reach, the four locals of the call together with
  \<open>globals\<close>, which stands for everything outside the function's frame (the HAL,
  the timer object \<^verbatim>\<open>seconds_timer\<close>, the trace output).
\<close>

record 'g frame =
  mvolt :: int32
  gnd_reading :: int32
  ref_reading :: int32
  ref_mvolts :: uint32
  globals :: 'g

text \<open>\<^verbatim>\<open>if (mvolt < gnd_reading) { mvolt = gnd_reading; }\<close>\<close>

definition clamp_stmt :: "'g frame \<Rightarrow> 'g frame" where
  "clamp_stmt f = (if mvolt f <s gnd_reading f then f\<lparr>mvolt := gnd_reading f\<rparr> else f)"

text \<open>\<^verbatim>\<open>mvolt -= gnd_reading;\<close>\<close>

definition subtract_stmt :: "'g frame \<Rightarrow> 'g frame" where
  "subtract_stmt f = f\<lparr>mvolt := mvolt f - gnd_reading f\<rparr>"

text \<open>\<^verbatim>\<open>mvolt *= ref_mvolts;\<close>\<close>

definition scale_stmt :: "'g frame \<Rightarrow> 'g frame" where
  "scale_stmt f = f\<lparr>mvolt := mvolt f * ref_mvolts f\<rparr>"

text \<open>\<^verbatim>\<open>mvolt += ((ref_reading - gnd_reading) >> 1);\<close>\<close>

definition bias_stmt :: "'g frame \<Rightarrow> 'g frame" where
  "bias_stmt f = f\<lparr>mvolt := mvolt f + signed_drop_bit 1 (ref_reading f - gnd_reading f)\<rparr>"

text \<open>\<^verbatim>\<open>mvolt /= (ref_reading - gnd_reading);\<close>\<close>

definition divide_stmt :: "'g frame \<Rightarrow> fault + 'g frame" where
  "divide_stmt f =
     (case sdiv32 (mvolt f) (ref_reading f - gnd_reading f) of
        Inl e \<Rightarrow> Inl e
      | Inr q \<Rightarrow> Inr (f\<lparr>mvolt := q\<rparr>))"

text \<open>
  The statements in order, from the zero test to the \<^verbatim>\<open>return\<close>. The call gives back
  the returned value or the fault, and the globals as the last statement run
  left them.
\<close>

definition convert_body :: "'g frame \<Rightarrow> (fault + uint32) \<times> 'g" where
  "convert_body f =
     (if mvolt f = 0 then (Inr 0, globals f)
      else
        let f1 = clamp_stmt f;
            f2 = subtract_stmt f1;
            f3 = scale_stmt f2;
            f4 = bias_stmt f3
        in case divide_stmt f4 of
             Inl e \<Rightarrow> (Inl e, globals f4)
           | Inr f5 \<Rightarrow> (Inr (mvolt f5), globals f5))"

subsection \<open>The formula over unbounded integers\<close>

text \<open>
  For comparison with the code, the calibration formula as the specification
  writes it, over mathematical integers and with nothing wrapping: the clamped
  difference times the reference value, plus half the span, divided by the span,
  both divisions truncating. These two definitions follow the specification's
  words, not the source.
\<close>

definition formula_numerator :: "int \<Rightarrow> int \<Rightarrow> int \<Rightarrow> int \<Rightarrow> int" where
  "formula_numerator raw_sample ground reference microvolts =
     (max raw_sample ground - ground) * microvolts + (reference - ground) sdiv 2"

definition formula_mvolt :: "int \<Rightarrow> int \<Rightarrow> int \<Rightarrow> int \<Rightarrow> int" where
  "formula_mvolt raw_sample ground reference microvolts =
     formula_numerator raw_sample ground reference microvolts sdiv (reference - ground)"

text \<open>A mathematical integer fits in a signed 32-bit integer.\<close>

definition fits_int32 :: "int \<Rightarrow> bool" where
  "fits_int32 k = (- (2 ^ 31) \<le> k \<and> k < 2 ^ 31)"

text \<open>The two's-complement reading of an integer taken modulo \<open>2 ^ 32\<close>.\<close>

definition wrap_int32 :: "int \<Rightarrow> int" where
  "wrap_int32 k = (k + 2 ^ 31) mod 2 ^ 32 - 2 ^ 31"

section \<open>Auxiliary facts\<close>

lemmas convert_steps =
  convert_def sdiv32_def biased_def scaled_def delta_def clamped_def rounding_bias_def span_def

lemma sint_word_of_int32: "sint (word_of_int k :: 32 word) = wrap_int32 k"
  by (simp add: int_word_sint wrap_int32_def)

lemma wrap_int32_fits: "fits_int32 k \<Longrightarrow> wrap_int32 k = k"
  by (simp add: wrap_int32_def fits_int32_def)

lemma sint_in_range32: "fits_int32 k \<Longrightarrow> sint (word_of_int k :: 32 word) = k"
  by (simp add: sint_word_of_int32 wrap_int32_fits)

lemma uint_in_range32:
  "0 \<le> k \<Longrightarrow> k < 2 ^ 31 \<Longrightarrow> uint (word_of_int k :: 32 word) = k"
  by (simp add: uint_word_of_int take_bit_eq_mod)

lemma sint_clamped: "sint (clamped m g) = max (sint m) (sint g)"
  by (simp add: clamped_def word_sless_alt max_def)

lemma sint_span: "sint (span g r) = wrap_int32 (sint r - sint g)"
proof -
  have "span g r = word_of_int (sint r - sint g)"
    by (simp add: span_def)
  then show ?thesis
    by (simp only: sint_word_of_int32)
qed

lemma span_eq_0_iff: "span g r = 0 \<longleftrightarrow> r = g"
  by (simp add: span_def)

lemma sint_rounding_bias: "sint (rounding_bias g r) = sint (span g r) div 2"
  by (simp add: rounding_bias_def span_def sint_signed_drop_bit_eq drop_bit_eq_div)

text \<open>The value before the division, read over the integers (modulo \<open>2 ^ 32\<close>).\<close>

lemma biased_of_int:
  "biased m g r u =
     word_of_int ((max (sint m) (sint g) - sint g) * uint u + sint (span g r) div 2)"
proof -
  have "delta m g = word_of_int (max (sint m) (sint g) - sint g)"
    unfolding delta_def by (simp flip: sint_clamped)
  moreover have "rounding_bias g r = word_of_int (sint (span g r) div 2)"
    by (simp flip: sint_rounding_bias)
  ultimately show ?thesis
    by (simp add: biased_def scaled_def)
qed

lemma sint_biased:
  "sint (biased m g r u) =
     wrap_int32 ((max (sint m) (sint g) - sint g) * uint u + wrap_int32 (sint r - sint g) div 2)"
  by (simp only: biased_of_int sint_word_of_int32 sint_span)

text \<open>Every run that passes the zero test, read over the integers.\<close>

lemma span_eq_minus_1_iff: "span g r = - 1 \<longleftrightarrow> wrap_int32 (sint r - sint g) = - 1"
proof -
  have "span g r = - 1 \<longleftrightarrow> sint (span g r) = sint (- 1 :: 32 word)"
    by (auto intro: signed_word_eqI)
  then show ?thesis
    by (simp add: sint_span)
qed

lemma convert_wrapped:
  assumes "m \<noteq> 0" and "r \<noteq> g"
  shows "convert m g r u =
     (if wrap_int32 ((max (sint m) (sint g) - sint g) * uint u
                       + wrap_int32 (sint r - sint g) div 2) = - (2 ^ 31)
         \<and> wrap_int32 (sint r - sint g) = - 1
      then Inl DivideOverflow
      else Inr (word_of_int
       (wrap_int32 ((max (sint m) (sint g) - sint g) * uint u + wrap_int32 (sint r - sint g) div 2)
          sdiv wrap_int32 (sint r - sint g))))"
  using assms
  by (simp only: convert_def sdiv32_def span_eq_0_iff span_eq_minus_1_iff sint_biased sint_span
      if_False)

lemma sdiv_nonneg: "0 \<le> a \<Longrightarrow> 0 < b \<Longrightarrow> a sdiv b = a div (b::int)"
  by (simp add: signed_divide_int_def sgn_if)

lemma formula_numerator_pos:
  "g < r \<Longrightarrow> formula_numerator m g r u = (max m g - g) * u + (r - g) div 2"
  by (simp add: formula_numerator_def sdiv_nonneg)

text \<open>
  With a positive span that fits and a numerator below \<open>2 ^ 31\<close> nothing wraps,
  and the result is the quotient of the integer formula.
\<close>

lemma convert_exact:
  fixes m g r :: int32 and u :: uint32
  defines "S \<equiv> sint r - sint g"
  defines "N \<equiv> (max (sint m) (sint g) - sint g) * uint u + (sint r - sint g) div 2"
  assumes m: "m \<noteq> 0" and S: "0 < S" "S < 2 ^ 31" and N: "N < 2 ^ 31"
  shows "convert m g r u = Inr (word_of_int (N div S))"
    and "0 \<le> N div S" and "N div S < 2 ^ 31"
    and "uint (word_of_int (N div S) :: 32 word) = N div S"
proof -
  have ne: "r \<noteq> g"
    using S by (auto simp: S_def)
  have wS: "wrap_int32 S = S"
    using S by (simp add: wrap_int32_fits fits_int32_def)
  have N0: "0 \<le> N"
    using S by (simp add: N_def S_def)
  have wN: "wrap_int32 N = N"
    using N0 N by (simp add: wrap_int32_fits fits_int32_def)
  have "wrap_int32 S \<noteq> - 1"
    using S wS by simp
  then have "convert m g r u = Inr (word_of_int (wrap_int32 N sdiv wrap_int32 S))"
    using convert_wrapped [OF m ne, of u] wS by (simp only: N_def S_def if_False simp_thms)
  then show "convert m g r u = Inr (word_of_int (N div S))"
    using N0 S by (simp only: wS wN sdiv_nonneg)
  show q0: "0 \<le> N div S"
    using N0 S by (simp add: pos_imp_zdiv_nonneg_iff)
  have "N div S \<le> N div 1"
    using N0 S by (intro zdiv_mono2) simp_all
  then show q1: "N div S < 2 ^ 31"
    using N by simp
  show "uint (word_of_int (N div S) :: 32 word) = N div S"
    using q0 q1 by (rule uint_in_range32)
qed

text \<open>Half of a span other than 0 and \<open>- 1\<close>, divided by the span, truncates to 0.\<close>

lemma half_sdiv_self: "x \<noteq> 0 \<Longrightarrow> x \<noteq> - 1 \<Longrightarrow> (x div 2) sdiv x = (0::int)"
proof -
  assume "x \<noteq> 0" "x \<noteq> - 1"
  then have "\<bar>x div 2\<bar> < \<bar>x\<bar>" by linarith
  then have "\<bar>x div 2\<bar> div \<bar>x\<bar> = 0" by simp
  then show ?thesis by (simp add: signed_divide_int_def)
qed

text \<open>A non-zero sample clamped to the ground offset converts to 0.\<close>

lemma convert_at_ground:
  assumes "m \<noteq> 0" and "clamped m g = g" and "span g r \<noteq> 0" and "span g r \<noteq> - 1"
  shows "convert m g r u = Inr 0"
proof -
  have "biased m g r u = rounding_bias g r"
    using assms(2) by (simp add: biased_def scaled_def delta_def)
  moreover have "sint (span g r) \<noteq> 0" "sint (span g r) \<noteq> - 1"
    using assms(3,4) by (simp_all add: signed_eq_0_iff) (metis sint_n1 signed_word_eqI)
  ultimately show ?thesis
    using assms(1,3,4) by (simp add: convert_def sdiv32_def sint_rounding_bias half_sdiv_self)
qed

text \<open>Quotient and divisor bracket the dividend.\<close>

lemma int_div_bounds:
  fixes a S :: int
  assumes "0 < S"
  shows "S * (a div S) \<le> a" and "a < S * (a div S) + S"
proof -
  have "S * (a div S) + a mod S = a"
    by (rule mult_div_mod_eq)
  moreover have "0 \<le> a mod S" and "a mod S < S"
    using assms by simp_all
  ultimately show "S * (a div S) \<le> a" and "a < S * (a div S) + S"
    by linarith+
qed

text \<open>The statements compute what the body computes and pass the globals on.\<close>

lemma convert_body_eq:
  "convert_body f = (convert (mvolt f) (gnd_reading f) (ref_reading f) (ref_mvolts f), globals f)"
proof (cases "mvolt f = 0")
  case True
  then show ?thesis
    by (simp add: convert_body_def convert_def)
next
  case False
  define f4 where "f4 = bias_stmt (scale_stmt (subtract_stmt (clamp_stmt f)))"
  have m4: "mvolt f4 = biased (mvolt f) (gnd_reading f) (ref_reading f) (ref_mvolts f)"
    by (simp add: f4_def bias_stmt_def scale_stmt_def subtract_stmt_def clamp_stmt_def
        biased_def scaled_def delta_def clamped_def rounding_bias_def)
  have rest: "gnd_reading f4 = gnd_reading f" "ref_reading f4 = ref_reading f"
    "globals f4 = globals f"
    by (simp_all add: f4_def bias_stmt_def scale_stmt_def subtract_stmt_def clamp_stmt_def)
  have "convert_body f =
      (case divide_stmt f4 of Inl e \<Rightarrow> (Inl e, globals f4) | Inr f5 \<Rightarrow> (Inr (mvolt f5), globals f5))"
    using False by (simp only: convert_body_def Let_def f4_def if_False)
  then show ?thesis
    using False m4 rest by (simp add: divide_stmt_def convert_def span_def split: sum.splits)
qed

lemmas hal_getters =
  wiced_hal_adc_get_ground_offset_def wiced_hal_adc_get_reference_reading_def
  wiced_hal_adc_get_reference_micro_volts_def

text \<open>The C function in terms of its body; a 16-bit sample is 0 only if its extension is.\<close>

lemma convert_adc_raw_to_mvolt_eq:
  "convert_adc_raw_to_mvolt raw_val s =
     (convert (scast raw_val) (ground_offset s) (reference_reading s) (reference_micro_volts s), s)"
  by (simp add: convert_adc_raw_to_mvolt_def hal_getters)

text \<open>The C function runs the statements on the frame it has initialised.\<close>

lemma convert_adc_raw_to_mvolt_body:
  "convert_adc_raw_to_mvolt raw_val s =
     convert_body \<lparr>mvolt = scast raw_val, gnd_reading = ground_offset s,
       ref_reading = reference_reading s, ref_mvolts = reference_micro_volts s, globals = s\<rparr>"
  by (simp add: convert_adc_raw_to_mvolt_eq convert_body_eq)

lemma sint_scast_16_32: "sint (scast (x :: 16 word) :: 32 word) = sint x"
  by (simp add: sint_up_scast is_up)

lemma scast_16_32_eq_0: "(scast (x :: 16 word) :: 32 word) = 0 \<longleftrightarrow> x = 0"
proof
  assume "(scast x :: 32 word) = 0"
  then have "sint (scast x :: 32 word) = 0" by simp
  then have "sint x = 0" by (simp only: sint_scast_16_32)
  then show "x = 0" by (simp add: signed_eq_0_iff)
qed simp

section \<open>Properties\<close>

text \<open>
  C2: the worked example. With ground offset 100, reference reading 1100,
  reference value 1000 and sample 600 the difference is 500, the scaled value
  500000, the rounding term 500, their sum 500500, the divisor 1000 and the
  result 500.
\<close>

theorem convert_worked_example:
  "delta 600 100 = 500 \<and> scaled 600 100 1000 = 500000 \<and> rounding_bias 100 1100 = 500
     \<and> biased 600 100 1100 1000 = 500500 \<and> span 100 1100 = 1000
     \<and> convert 600 100 1100 1000 = Inr 500"
  by (simp add: convert_steps)

text \<open>
  C3: a zero sample returns 0 at once, whatever the three calibration values
  are; the C function does so for the sample 0 in every state.
\<close>

theorem convert_zero_sample:
  "convert 0 g r u = Inr 0 \<and> fst (convert_adc_raw_to_mvolt 0 s) = Inr 0"
  by (simp add: convert_def convert_adc_raw_to_mvolt_def hal_getters)

subsection \<open>The division by zero\<close>

text \<open>
  C1, as stated, fails: with equal reference reading and ground offset a zero
  sample does not fault, it returns 0.
\<close>

theorem zero_sample_with_equal_readings_counterexample:
  "convert 0 5 5 1000 \<noteq> Inl DivideByZero"
  by (simp add: convert_def)

text \<open>
  C1, amended: every call with a non-zero sample and a reference reading equal
  to the ground offset ends in the division-by-zero fault, for the body and for
  the C function on every non-zero 16-bit sample; the zero test is the only test
  before the division.
\<close>

theorem convert_equal_readings_fault:
  "(m \<noteq> 0 \<longrightarrow> convert m g g u = Inl DivideByZero)
   \<and> (raw_val \<noteq> 0 \<and> reference_reading s = ground_offset s
      \<longrightarrow> fst (convert_adc_raw_to_mvolt raw_val s) = Inl DivideByZero)"
  by (simp add: convert_adc_raw_to_mvolt_eq scast_16_32_eq_0 convert_def sdiv32_def span_def)

theorem convert_equal_readings_fault_witness:
  "(7 :: int32) \<noteq> 0 \<and> convert 7 5 5 1000 = Inl DivideByZero
   \<and> (7 :: int16) \<noteq> 0
   \<and> reference_reading \<lparr>ground_offset = 5, reference_reading = 5, reference_micro_volts = 1000\<rparr>
       = ground_offset \<lparr>ground_offset = 5, reference_reading = 5, reference_micro_volts = 1000\<rparr>
   \<and> fst (convert_adc_raw_to_mvolt 7
        \<lparr>ground_offset = 5, reference_reading = 5, reference_micro_volts = 1000\<rparr>)
       = Inl DivideByZero"
  using convert_equal_readings_fault
    [of 7 5 1000 7 "\<lparr>ground_offset = 5, reference_reading = 5, reference_micro_volts = 1000\<rparr>"]
  by simp

text \<open>
  C9: a zero sample returns 0 even when the reference reading equals the ground
  offset, and a call that ends in a fault had a non-zero sample: the division is
  reached only by non-zero samples. The division-by-zero fault is that of the
  non-zero samples with equal readings.
\<close>

theorem division_only_for_nonzero_sample:
  "convert 0 g g u = Inr 0
   \<and> (convert m g r u = Inl e \<longrightarrow> m \<noteq> 0)
   \<and> (convert m g r u = Inl DivideByZero \<longleftrightarrow> m \<noteq> 0 \<and> r = g)"
  by (simp add: convert_def sdiv32_def span_def split: if_splits)

theorem division_only_for_nonzero_sample_witness:
  "convert 0 42 42 850 = Inr 0 \<and> convert (- 3) 42 42 850 = Inl DivideByZero
     \<and> (- 3 :: int32) \<noteq> 0 \<and> (42 :: int32) = 42"
  using division_only_for_nonzero_sample [of 42 850 "- 3" 42 DivideByZero]
  by (simp add: convert_def sdiv32_def span_def)

subsection \<open>Clamping\<close>

text \<open>
  C4, as stated, fails where the zero test and the clamp disagree: the sample 0
  lies below the ground offset 5 and returns 0, while the sample 5 faults when the
  reference reading is 5 too, and gives 1 when the reference reading is 4.
\<close>

theorem sub_ground_not_clamped_counterexample:
  "(0 :: int32) <s 5 \<and> convert 0 5 5 1000 = Inr 0 \<and> convert 5 5 5 1000 = Inl DivideByZero
     \<and> convert 0 5 4 1000 = Inr 0 \<and> convert 5 5 4 1000 = Inr 1"
  by (simp add: convert_steps word_sless_alt)

text \<open>
  C4, amended: a sample below the ground offset converts to what the ground
  offset itself converts to, provided that sample and ground offset are both
  non-zero, or that the 32-bit difference of reference reading and ground offset
  is neither 0 nor \<open>- 1\<close>.
\<close>

theorem convert_sub_ground:
  assumes "m <s g"
    and "(m \<noteq> 0 \<and> g \<noteq> 0) \<or> (span g r \<noteq> 0 \<and> span g r \<noteq> - 1)"
  shows "convert m g r u = convert g g r u"
proof -
  have cm: "clamped m g = g" and cg: "clamped g g = g"
    using assms(1) by (simp_all add: clamped_def)
  show ?thesis
  proof (cases "m \<noteq> 0 \<and> g \<noteq> 0")
    case True
    then show ?thesis
      by (simp add: convert_def biased_def scaled_def delta_def cm cg)
  next
    case False
    with assms(2) have sp: "span g r \<noteq> 0" "span g r \<noteq> - 1"
      by simp_all
    from assms(1) have "m \<noteq> g" by auto
    with False consider "m = 0" "g \<noteq> 0" | "m \<noteq> 0" "g = 0"
      by auto
    then show ?thesis
    proof cases
      case 1
      then show ?thesis
        using convert_at_ground [OF _ cg sp, of u] by (simp add: convert_def)
    next
      case 2
      then show ?thesis
        using convert_at_ground [OF _ cm sp, of u] by (simp add: convert_def)
    qed
  qed
qed

theorem convert_sub_ground_witness:
  "(50 :: int32) <s 100 \<and> (50 :: int32) \<noteq> 0 \<and> (100 :: int32) \<noteq> 0
     \<and> convert 50 100 1100 1000 = convert 100 100 1100 1000"
  using convert_sub_ground [of 50 100 1100 1000] by (simp add: word_sless_alt)

subsection \<open>Purity\<close>



subsection \<open>Monotonicity\<close>

text \<open>
  C5, as stated, fails in two ways. The zero test breaks the order when the
  ground offset is negative: with ground offset \<open>- 100\<close> and reference reading 900
  the sample \<open>- 1\<close> converts to 99 and the larger sample 0 to 0. And the 32-bit
  product wraps: with ground offset 0, reference reading 1000 and reference value
  1000000 the sample 2147 converts to 2147000 and the larger sample 4295 to 33.
\<close>

theorem convert_not_monotone_counterexample:
  "(- 1 :: int32) \<le>s 0 \<and> (- 100 :: int32) <s 900
     \<and> convert (- 1) (- 100) 900 1000 = Inr 99 \<and> convert 0 (- 100) 900 1000 = Inr 0
     \<and> \<not> (99 :: uint32) \<le> 0
     \<and> (2147 :: int32) \<le>s 4295 \<and> (0 :: int32) <s 1000
     \<and> convert 2147 0 1000 1000000 = Inr 2147000 \<and> convert 4295 0 1000 1000000 = Inr 33
     \<and> \<not> (2147000 :: uint32) \<le> 33"
  by (simp add: convert_steps word_sless_alt word_sle_eq)

text \<open>
  C5, amended: for a reference reading above the ground offset with a span that
  fits in 32 signed bits, and two samples in signed order such that the numerator
  of the larger one stays below \<open>2 ^ 31\<close> (nothing wraps) and the larger one is
  not 0 unless the ground offset is non-negative, both conversions succeed and
  their results are in (unsigned) order.
\<close>

theorem convert_monotone:
  fixes m1 m2 g r :: int32 and u :: uint32
  assumes le: "m1 \<le>s m2"
    and gr: "g <s r"
    and S: "sint r - sint g < 2 ^ 31"
    and N: "formula_numerator (sint m2) (sint g) (sint r) (uint u) < 2 ^ 31"
    and z: "m2 \<noteq> 0 \<or> 0 \<le>s g"
  shows "\<exists>a b. convert m1 g r u = Inr a \<and> convert m2 g r u = Inr b \<and> a \<le> b"
proof -
  define S' where "S' = sint r - sint g"
  define N1 where "N1 = (max (sint m1) (sint g) - sint g) * uint u + (sint r - sint g) div 2"
  define N2 where "N2 = (max (sint m2) (sint g) - sint g) * uint u + (sint r - sint g) div 2"
  have S0: "0 < sint r - sint g"
    using gr by (simp add: word_sless_alt)
  have le': "sint m1 \<le> sint m2"
    using le by (simp add: word_sle_eq)
  have N2b: "N2 < 2 ^ 31"
    using N S0 by (simp add: N2_def formula_numerator_pos)
  have "(max (sint m1) (sint g) - sint g) * uint u \<le> (max (sint m2) (sint g) - sint g) * uint u"
    using le' by (intro mult_right_mono) simp_all
  then have N12: "N1 \<le> N2"
    by (simp add: N1_def N2_def)
  then have N1b: "N1 < 2 ^ 31"
    using N2b by simp
  have "sint (span g r) = sint r - sint g"
    using S0 S by (simp add: sint_span wrap_int32_fits fits_int32_def)
  with S0 have sp: "span g r \<noteq> 0" "span g r \<noteq> - 1"
    by auto
  show ?thesis
  proof (cases "m1 = 0")
    case True
    then have "convert m1 g r u = Inr 0"
      by (simp add: convert_def)
    moreover have "\<exists>b. convert m2 g r u = Inr b"
    proof (cases "m2 = 0")
      case True
      then show ?thesis by (simp add: convert_def)
    next
      case False
      then show ?thesis
        using convert_exact(1) [OF False S0 S, of u] N2b by (simp add: N2_def)
    qed
    ultimately show ?thesis by auto
  next
    case m1: False
    show ?thesis
    proof (cases "m2 = 0")
      case True
      with z have "0 \<le> sint g"
        by (simp add: word_sle_eq)
      moreover have "sint m1 \<noteq> 0"
        using m1 by (simp add: signed_eq_0_iff)
      ultimately have "sint m1 < sint g"
        using le' True by simp
      then have "clamped m1 g = g"
        by (simp add: clamped_def word_sless_alt)
      with m1 have "convert m1 g r u = Inr 0"
        using sp by (rule convert_at_ground)
      with True show ?thesis
        by (simp add: convert_def)
    next
      case m2: False
      have a: "convert m1 g r u = Inr (word_of_int (N1 div (sint r - sint g)))"
        and ua: "uint (word_of_int (N1 div (sint r - sint g)) :: 32 word) = N1 div (sint r - sint g)"
        using convert_exact(1,4) [OF m1 S0 S, of u] N1b by (simp_all add: N1_def)
      have b: "convert m2 g r u = Inr (word_of_int (N2 div (sint r - sint g)))"
        and ub: "uint (word_of_int (N2 div (sint r - sint g)) :: 32 word) = N2 div (sint r - sint g)"
        using convert_exact(1,4) [OF m2 S0 S, of u] N2b by (simp_all add: N2_def)
      have "N1 div (sint r - sint g) \<le> N2 div (sint r - sint g)"
        using N12 S0 by (rule zdiv_mono1)
      then have "(word_of_int (N1 div (sint r - sint g)) :: 32 word) \<le> word_of_int (N2 div (sint r - sint g))"
        by (simp only: word_le_def ua ub)
      with a b show ?thesis by blast
    qed
  qed
qed

theorem convert_monotone_witness:
  "(300 :: int32) \<le>s 600 \<and> (100 :: int32) <s 1100
     \<and> sint (1100 :: int32) - sint (100 :: int32) < 2 ^ 31
     \<and> formula_numerator (sint (600 :: int32)) (sint (100 :: int32)) (sint (1100 :: int32))
          (uint (1000 :: uint32)) < 2 ^ 31
     \<and> (600 :: int32) \<noteq> 0
     \<and> (\<exists>a b. convert 300 100 1100 1000 = Inr a \<and> convert 600 100 1100 1000 = Inr b \<and> a \<le> b)"
  using convert_monotone [of 300 600 100 1100 1000]
  by (simp add: word_sle_eq word_sless_alt formula_numerator_def)


subsection \<open>Rounding\<close>

text \<open>
  C6, as stated, fails for a negative odd span: the rounding term is the
  arithmetic shift, which rounds down, not the truncating division. With ground
  offset 103 and reference reading 100 the span is \<open>- 3\<close>, the term added to the
  scaled value is \<open>- 2\<close>, and \<open>- 3\<close> divided by 2 with truncation is \<open>- 1\<close>.
\<close>

theorem rounding_bias_not_truncating_counterexample:
  "(200 :: int32) \<noteq> 0 \<and> biased 200 103 100 1 = scaled 200 103 1 + rounding_bias 103 100
     \<and> sint (rounding_bias 103 100) = - 2
     \<and> (sint (100 :: int32) - sint (103 :: int32)) sdiv 2 = - 1"
  by (simp add: convert_steps signed_divide_int_def)

text \<open>
  C6, amended: on the path past the zero test the term added to the scaled value
  is the 32-bit span shifted right arithmetically by one, that is the span
  divided by 2 rounding down; it is the truncating half whenever the span is not
  negative. For a positive span that fits, and a numerator below \<open>2 ^ 31\<close>, the
  result \<open>q\<close> is the scaled value \<open>n\<close> divided by the span \<open>S\<close> and rounded to the
  nearest integer, halves upwards: \<open>2 * S * q \<le> 2 * n + S < 2 * S * (q + 1)\<close>.
\<close>

theorem rounding_bias_half_up:
  fixes m g r :: int32 and u :: uint32
  shows "biased m g r u = scaled m g u + rounding_bias g r
    \<and> sint (rounding_bias g r) = sint (span g r) div 2
    \<and> (0 \<le> sint (span g r) \<longrightarrow> sint (rounding_bias g r) = sint (span g r) sdiv 2)
    \<and> (m \<noteq> 0 \<and> 0 < sint r - sint g \<and> sint r - sint g < 2 ^ 31
         \<and> formula_numerator (sint m) (sint g) (sint r) (uint u) < 2 ^ 31
       \<longrightarrow> (\<exists>q. convert m g r u = Inr q
             \<and> 2 * ((sint r - sint g) * uint q)
                 \<le> 2 * ((max (sint m) (sint g) - sint g) * uint u) + (sint r - sint g)
             \<and> 2 * ((max (sint m) (sint g) - sint g) * uint u) + (sint r - sint g)
                 < 2 * ((sint r - sint g) * (uint q + 1))))"
proof (intro conjI impI)
  show "biased m g r u = scaled m g u + rounding_bias g r"
    by (simp add: biased_def)
  show "sint (rounding_bias g r) = sint (span g r) div 2"
    by (rule sint_rounding_bias)
  show "sint (rounding_bias g r) = sint (span g r) sdiv 2" if "0 \<le> sint (span g r)"
    using that by (simp add: sint_rounding_bias sdiv_nonneg)
next
  assume h: "m \<noteq> 0 \<and> 0 < sint r - sint g \<and> sint r - sint g < 2 ^ 31
         \<and> formula_numerator (sint m) (sint g) (sint r) (uint u) < 2 ^ 31"
  define S where "S = sint r - sint g"
  define n where "n = (max (sint m) (sint g) - sint g) * uint u"
  define q where "q = (n + S div 2) div S"
  have S0: "0 < S"
    using h by (simp add: S_def)
  have "formula_numerator (sint m) (sint g) (sint r) (uint u) < 2 ^ 31"
    using h by simp
  then have N: "n + S div 2 < 2 ^ 31"
    using S0 by (simp add: S_def n_def formula_numerator_pos)
  have c: "convert m g r u = Inr (word_of_int q)" and uq: "uint (word_of_int q :: 32 word) = q"
    using convert_exact(1,4) [of m r g u] h N
    by (simp_all add: q_def n_def S_def)
  have lo: "S * q \<le> n + S div 2" and hi: "n + S div 2 < S * q + S"
    using int_div_bounds [OF S0, of "n + S div 2"] by (simp_all add: q_def)
  have "2 * (S * q) \<le> 2 * n + S \<and> 2 * n + S < 2 * (S * (q + 1))"
    using lo hi by (simp add: algebra_simps) linarith
  then show "\<exists>q. convert m g r u = Inr q
             \<and> 2 * ((sint r - sint g) * uint q)
                 \<le> 2 * ((max (sint m) (sint g) - sint g) * uint u) + (sint r - sint g)
             \<and> 2 * ((max (sint m) (sint g) - sint g) * uint u) + (sint r - sint g)
                 < 2 * ((sint r - sint g) * (uint q + 1))"
    using c uq unfolding S_def n_def by (intro exI [of _ "word_of_int q"]) simp
qed


theorem rounding_bias_half_up_witness:
  "0 \<le> sint (span 100 1100)
   \<and> sint (rounding_bias 100 1100) = sint (span 100 1100) sdiv 2
   \<and> (600 :: int32) \<noteq> 0 \<and> 0 < sint (1100 :: int32) - sint (100 :: int32)
   \<and> sint (1100 :: int32) - sint (100 :: int32) < 2 ^ 31
   \<and> formula_numerator (sint (600 :: int32)) (sint (100 :: int32)) (sint (1100 :: int32))
        (uint (1000 :: uint32)) < 2 ^ 31
   \<and> (\<exists>q. convert 600 100 1100 1000 = Inr q
         \<and> 2 * (1000 * uint q) \<le> 2 * (500 * 1000) + 1000
         \<and> 2 * (500 * 1000) + 1000 < 2 * (1000 * (uint q + 1)))"
  using rounding_bias_half_up [of 600 100 1100 1000]
  by (simp add: span_def formula_numerator_def)

subsection \<open>Scaling with the reference value\<close>

text \<open>
  C7, as stated, fails because of the rounding: in the worked example the
  reference value 1 gives 1 and the reference value 1000 gives 500, not 1000.
\<close>

theorem convert_not_linear_counterexample:
  "convert 600 100 1100 1 = Inr 1 \<and> convert 600 100 1100 (1000 * 1) = Inr 500
     \<and> (500 :: uint32) \<noteq> 1000 * 1"
  by (simp add: convert_steps)

text \<open>
  C7, amended: for a reference reading above the ground offset with a span that
  fits, a factor \<open>k \<ge> 1\<close> and a numerator that stays below \<open>2 ^ 31\<close> for the larger
  reference value, the result for \<open>k\<close> times the reference value differs from \<open>k\<close>
  times the result by less than \<open>k\<close>; the two are equal when the span divides the
  scaled value exactly.
\<close>

theorem convert_scales_up_to_rounding:
  fixes m g r :: int32 and u u' :: uint32 and k :: int
  assumes k: "0 < k" and u': "uint u' = k * uint u"
    and gr: "g <s r" and S: "sint r - sint g < 2 ^ 31"
    and N: "formula_numerator (sint m) (sint g) (sint r) (uint u') < 2 ^ 31"
  shows "\<exists>a b. convert m g r u = Inr a \<and> convert m g r u' = Inr b
           \<and> \<bar>uint b - k * uint a\<bar> < k
           \<and> ((sint r - sint g) dvd (max (sint m) (sint g) - sint g) * uint u
                \<longrightarrow> uint b = k * uint a)"
proof (cases "m = 0")
  case True
  then show ?thesis
    using k by (simp add: convert_def)
next
  case m: False
  define S' where "S' = sint r - sint g"
  define h where "h = S' div 2"
  define n where "n = (max (sint m) (sint g) - sint g) * uint u"
  define q where "q = (n + h) div S'"
  define q' where "q' = (k * n + h) div S'"
  have S0: "0 < S'"
    using gr by (simp add: S'_def word_sless_alt)
  have h0: "0 \<le> h" and hS: "h \<le> S'"
    using S0 by (simp_all add: h_def)
  have n0: "0 \<le> n"
    by (simp add: n_def)
  have kn: "(max (sint m) (sint g) - sint g) * uint u' = k * n"
    by (simp add: u' n_def)
  have N': "k * n + h < 2 ^ 31"
    using N S0 by (simp add: formula_numerator_pos kn h_def S'_def)
  have "1 * n \<le> k * n"
    using k n0 by (intro mult_right_mono) simp_all
  then have N1: "n + h < 2 ^ 31"
    using N' by simp
  have a: "convert m g r u = Inr (word_of_int q)" and ua: "uint (word_of_int q :: 32 word) = q"
    using convert_exact(1,4) [OF m S0 [unfolded S'_def] S, of u] N1
    by (simp_all add: q_def n_def h_def S'_def)
  have b: "convert m g r u' = Inr (word_of_int q')" and ub: "uint (word_of_int q' :: 32 word) = q'"
    using convert_exact(1,4) [OF m S0 [unfolded S'_def] S, of u'] N'
    by (simp_all add: q'_def kn h_def S'_def)
  have lo: "S' * q \<le> n + h" and hi: "n + h < S' * q + S'"
    using int_div_bounds [OF S0, of "n + h"] by (simp_all add: q_def)
  have lo': "S' * q' \<le> k * n + h" and hi': "k * n + h < S' * q' + S'"
    using int_div_bounds [OF S0, of "k * n + h"] by (simp_all add: q'_def)
  have kh: "1 * h \<le> k * h"
    using k h0 by (intro mult_right_mono) simp_all
  have khS: "(k - 1) * h \<le> (k - 1) * S'"
    using k hS by (intro mult_left_mono) simp_all
  have up: "q' < k * q + k"
  proof -
    have "k * n \<le> k * (S' * q + S' - h - 1)"
      using k hi by (intro mult_left_mono) simp_all
    then have "k * n \<le> k * (S' * q) + k * S' - k * h - k"
      by (simp add: algebra_simps)
    then have "S' * q' < k * (S' * q) + k * S'"
      using lo' kh k by linarith
    also have "\<dots> = S' * (k * q + k)"
      by (simp add: algebra_simps)
    finally show ?thesis
      using S0 by (simp add: mult_less_cancel_left_pos)
  qed
  have down: "k * q < q' + k"
  proof -
    have "k * (S' * q) \<le> k * (n + h)"
      using k lo by (intro mult_left_mono) simp_all
    then have "k * (S' * q) \<le> k * n + k * h"
      by (simp add: algebra_simps)
    moreover have "k * h - h \<le> k * S' - S'"
      using khS by (simp add: algebra_simps)
    ultimately have "k * (S' * q) < S' * q' + k * S'"
      using hi' by linarith
    also have "\<dots> = S' * (q' + k)"
      by (simp add: algebra_simps)
    finally have "S' * (k * q) < S' * (q' + k)"
      by (simp add: algebra_simps)
    then show ?thesis
      using S0 by (simp add: mult_less_cancel_left_pos)
  qed
  have exact: "q' = k * q" if d: "S' dvd n"
  proof -
    from d obtain c where c: "n = S' * c" ..
    have hlt: "h < S'"
      using S0 by (simp add: h_def)
    have "q = c"
      using S0 h0 hlt by (simp add: q_def c)
    moreover have "k * n + h = S' * (k * c) + h"
      by (simp add: c algebra_simps)
    then have "q' = (S' * (k * c) + h) div S'"
      by (simp only: q'_def)
    then have "q' = k * c"
      using S0 h0 hlt by simp
    ultimately show ?thesis by simp
  qed
  have near: "\<bar>q' - k * q\<bar> < k"
    using up down by linarith
  show ?thesis
  proof (intro exI conjI impI)
    show "convert m g r u = Inr (word_of_int q)"
      by (rule a)
    show "convert m g r u' = Inr (word_of_int q')"
      by (rule b)
    show "\<bar>uint (word_of_int q' :: 32 word) - k * uint (word_of_int q :: 32 word)\<bar> < k"
      using near by (simp only: ua ub)
    show "uint (word_of_int q' :: 32 word) = k * uint (word_of_int q :: 32 word)"
      if "(sint r - sint g) dvd (max (sint m) (sint g) - sint g) * uint u"
    proof -
      from that have "S' dvd n"
        by (simp only: S'_def n_def)
      then have "q' = k * q"
        by (rule exact)
      with ub have "uint (word_of_int q' :: 32 word) = k * q"
        by (rule trans)
      then show ?thesis
        unfolding ua .
    qed
  qed
qed

theorem convert_scales_up_to_rounding_witness:
  "(0 :: int) < 500 \<and> uint (1000 :: uint32) = 500 * uint (2 :: uint32)
   \<and> (100 :: int32) <s 1100 \<and> sint (1100 :: int32) - sint (100 :: int32) < 2 ^ 31
   \<and> formula_numerator (sint (600 :: int32)) (sint (100 :: int32)) (sint (1100 :: int32))
        (uint (1000 :: uint32)) < 2 ^ 31
   \<and> (sint (1100 :: int32) - sint (100 :: int32))
        dvd (max (sint (600 :: int32)) (sint (100 :: int32)) - sint (100 :: int32)) * uint (2 :: uint32)
   \<and> (\<exists>a b. convert 600 100 1100 2 = Inr a \<and> convert 600 100 1100 1000 = Inr b
          \<and> \<bar>uint b - 500 * uint a\<bar> < 500 \<and> uint b = 500 * uint a)"
  using convert_scales_up_to_rounding [of 500 1000 2 100 1100 600]
  by (simp add: word_sless_alt formula_numerator_def)

subsection \<open>Arithmetic modulo \<open>2 ^ 32\<close>\<close>

text \<open>
  C10, as stated, fails in its \<open>only when\<close>: with sample 1, ground offset 0,
  reference reading 1 and reference value \<open>2 ^ 31\<close> the numerator \<open>2 ^ 31\<close> does not
  fit in 32 signed bits, the product wraps to the most negative value, and the
  unsigned result is still \<open>2 ^ 31\<close>, the value of the formula.
\<close>

theorem exact_without_fitting_counterexample:
  "\<not> fits_int32 (formula_numerator 1 0 1 2147483648)
     \<and> formula_mvolt 1 0 1 2147483648 = 2147483648
     \<and> sint (1 :: int32) = 1 \<and> sint (0 :: int32) = 0 \<and> uint (2147483648 :: uint32) = 2147483648
     \<and> convert 1 0 1 2147483648 = Inr 2147483648"
  by (simp add: convert_steps word_sless_alt fits_int32_def formula_numerator_def formula_mvolt_def
      signed_divide_int_def)

text \<open>
  C10, amended: the arithmetic is that of 32-bit two's-complement integers. The
  scaled value is the clamped difference times the reference value, wrapped. Past
  the zero test and with a non-zero span, the call faults when the wrapped
  numerator is \<open>- 2 ^ 31\<close> and the wrapped span \<open>- 1\<close> (the one quotient that is no
  32-bit integer), and otherwise returns the wrapped numerator divided
  (truncating) by the wrapped span, cast to unsigned. Whenever the span is
  positive and span and numerator fit in 32 signed bits, the result is the value
  of the formula over the integers. When they do not fit the result comes from
  the wrapped values; it can differ from the formula, and it can agree with it.
\<close>

theorem convert_modulo_2_32:
  fixes m g r :: int32 and u :: uint32
  assumes "m \<noteq> 0" and "r \<noteq> g"
  shows "sint (scaled m g u) = wrap_int32 ((max (sint m) (sint g) - sint g) * uint u)
    \<and> convert m g r u =
        (if wrap_int32 ((max (sint m) (sint g) - sint g) * uint u
                          + wrap_int32 (sint r - sint g) div 2) = - (2 ^ 31)
            \<and> wrap_int32 (sint r - sint g) = - 1
         then Inl DivideOverflow
         else Inr (word_of_int
          (wrap_int32 ((max (sint m) (sint g) - sint g) * uint u
                         + wrap_int32 (sint r - sint g) div 2)
             sdiv wrap_int32 (sint r - sint g))))
    \<and> (0 < sint r - sint g \<and> fits_int32 (sint r - sint g)
         \<and> fits_int32 (formula_numerator (sint m) (sint g) (sint r) (uint u))
       \<longrightarrow> (\<exists>q. convert m g r u = Inr q
               \<and> uint q = formula_mvolt (sint m) (sint g) (sint r) (uint u)))"
proof (intro conjI impI)
  have "scaled m g u = word_of_int ((max (sint m) (sint g) - sint g) * uint u)"
    unfolding scaled_def delta_def by (simp flip: sint_clamped)
  then show "sint (scaled m g u) = wrap_int32 ((max (sint m) (sint g) - sint g) * uint u)"
    by (simp only: sint_word_of_int32)
  show "convert m g r u =
        (if wrap_int32 ((max (sint m) (sint g) - sint g) * uint u
                          + wrap_int32 (sint r - sint g) div 2) = - (2 ^ 31)
            \<and> wrap_int32 (sint r - sint g) = - 1
         then Inl DivideOverflow
         else Inr (word_of_int
          (wrap_int32 ((max (sint m) (sint g) - sint g) * uint u
                         + wrap_int32 (sint r - sint g) div 2)
             sdiv wrap_int32 (sint r - sint g))))"
    using assms by (rule convert_wrapped)
  show "\<exists>q. convert m g r u = Inr q
               \<and> uint q = formula_mvolt (sint m) (sint g) (sint r) (uint u)"
    if h: "0 < sint r - sint g \<and> fits_int32 (sint r - sint g)
         \<and> fits_int32 (formula_numerator (sint m) (sint g) (sint r) (uint u))"
  proof -
    have S0: "0 < sint r - sint g" and S: "sint r - sint g < 2 ^ 31"
      using h by (simp_all add: fits_int32_def)
    have "formula_numerator (sint m) (sint g) (sint r) (uint u) < 2 ^ 31"
      using h by (simp add: fits_int32_def)
    then have N: "(max (sint m) (sint g) - sint g) * uint u + (sint r - sint g) div 2 < 2 ^ 31"
      using S0 by (simp add: formula_numerator_pos)
    have N0: "0 \<le> (max (sint m) (sint g) - sint g) * uint u + (sint r - sint g) div 2"
      using S0 by simp
    have "formula_mvolt (sint m) (sint g) (sint r) (uint u)
        = ((max (sint m) (sint g) - sint g) * uint u + (sint r - sint g) div 2) div (sint r - sint g)"
      using N0 S0 by (simp add: formula_mvolt_def formula_numerator_pos sdiv_nonneg)
    then show ?thesis
      using convert_exact(1,4) [OF assms(1) S0 S N] by simp
  qed
qed

theorem convert_modulo_2_32_witness:
  "(600 :: int32) \<noteq> 0 \<and> (1100 :: int32) \<noteq> 100
   \<and> 0 < sint (1100 :: int32) - sint (100 :: int32)
   \<and> fits_int32 (sint (1100 :: int32) - sint (100 :: int32))
   \<and> fits_int32 (formula_numerator (sint (600 :: int32)) (sint (100 :: int32))
        (sint (1100 :: int32)) (uint (1000 :: uint32)))
   \<and> formula_mvolt (sint (600 :: int32)) (sint (100 :: int32))
        (sint (1100 :: int32)) (uint (1000 :: uint32)) = 500
   \<and> (\<exists>q. convert 600 100 1100 1000 = Inr q \<and> uint q = 500)
   \<and> (4295 :: int32) \<noteq> 0 \<and> (1000 :: int32) \<noteq> 0
   \<and> \<not> fits_int32 (formula_numerator (sint (4295 :: int32)) (sint (0 :: int32))
        (sint (1000 :: int32)) (uint (1000000 :: uint32)))
   \<and> formula_mvolt (sint (4295 :: int32)) (sint (0 :: int32))
        (sint (1000 :: int32)) (uint (1000000 :: uint32)) = 4295000
   \<and> sint (scaled 4295 0 1000000) = 4295000000 - 2 ^ 32
   \<and> convert 4295 0 1000 1000000 = Inr 33
   \<and> (1 :: int32) \<noteq> 0 \<and> (- 1 :: int32) \<noteq> 0
   \<and> convert 1 0 (- 1) 2147483649 = Inl DivideOverflow"
  using convert_modulo_2_32 [of 600 1100 100 1000] convert_modulo_2_32 [of 4295 1000 0 1000000]
    convert_modulo_2_32 [of 1 "- 1" 0 2147483649]
  by (simp add: fits_int32_def formula_numerator_def formula_mvolt_def wrap_int32_def)

end
